theory Spec2Isabelle
  imports Complex_Main "HOL-Library.Word"
begin

section \<open>JavaScript values\<close>

text \<open>
  A JavaScript string is a sequence of 16-bit UTF-16 code units: \<^verbatim>\<open>text.length\<close> counts
  code units, and a regular expression without the \<^verbatim>\<open>u\<close> flag matches code unit by code
  unit. String literals of the scripts are ASCII and are written through \<open>lit\<close>.

  A JavaScript Number is a binary64 value: a finite one is a rational, and the products
  of the scroll adapter are rounded to binary64 after every multiplication (see the
  section on binary64 arithmetic). Wheel deltas are finite numbers (the DOM rejects other
  values) and element dimensions (\<^verbatim>\<open>scrollWidth\<close>, \<^verbatim>\<open>clientWidth\<close>) are DOM
  integers; comparisons, absolute value and negation are exact on all of them. In the
  direction resolver the 10% threshold is stated with the exact product, and the last
  definitions section computes it a second time with the rounded product, which is then
  shown to give the same verdict.
\<close>

type_synonym code_unit = "16 word"
type_synonym jsstring = "code_unit list"

definition lit :: "string \<Rightarrow> jsstring" where
  "lit s = map of_char s"

datatype js_error = TypeError

text \<open>
  \<^verbatim>\<open>v || d\<close> on a value that is a string, \<^verbatim>\<open>null\<close> or \<^verbatim>\<open>undefined\<close>: the empty
  string is falsy, like the two absent values.
\<close>

definition or_default :: "jsstring option \<Rightarrow> jsstring \<Rightarrow> jsstring" where
  "or_default v d = (case v of None \<Rightarrow> d | Some s \<Rightarrow> if s = [] then d else s)"

text \<open>
  \<^verbatim>\<open>s.split(sep)\<close> for a separator of one code unit: the segments between the
  occurrences of the separator; a string without the separator is one segment.
\<close>

fun split_from :: "code_unit \<Rightarrow> jsstring \<Rightarrow> jsstring \<Rightarrow> jsstring list" where
  "split_from sep cur [] = [cur]"
| "split_from sep cur (c # cs) =
     (if c = sep then cur # split_from sep [] cs else split_from sep (cur @ [c]) cs)"

definition split :: "code_unit \<Rightarrow> jsstring \<Rightarrow> jsstring list" where
  "split sep s = split_from sep [] s"

definition hyphen :: code_unit where
  "hyphen = of_char CHR ''-''"


section \<open>Direction resolver\<close>

text \<open>
  The element found by \<^verbatim>\<open>document.getElementById('html-element')\<close>, with the two
  attributes the script touches; an attribute that is not set reads as \<^verbatim>\<open>null\<close>.
\<close>

record element =
  lang :: "jsstring option"
  dir :: "jsstring option"

text \<open>
  The part of the document the resolver sees: the looked-up element (\<^verbatim>\<open>null\<close> when no
  element has the id) and \<^verbatim>\<open>document.body.innerText\<close> (\<open>None\<close> where the property
  is undefined). The body element itself is taken as present: the HTML parser creates
  one for every document before \<^verbatim>\<open>DOMContentLoaded\<close> fires.
\<close>

record document =
  html_element :: "element option"
  innerText :: "jsstring option"

text \<open>The DOM accesses of one resolver pass, in program order.\<close>

datatype dom_access = Get_lang | Read_innerText | Set_dir jsstring

definition rtlLanguages :: "jsstring list" where
  "rtlLanguages = map lit [''ar'', ''he'', ''fa'', ''ur'', ''yi'', ''ji'', ''iw'', ''ku'']"

text \<open>The character class of the pattern: one code unit from U+0590 to U+08FF.\<close>

definition rtlCharPattern :: "code_unit \<Rightarrow> bool" where
  "rtlCharPattern c \<longleftrightarrow> 0x0590 \<le> c \<and> c \<le> 0x08FF"

text \<open>
  \<^verbatim>\<open>text.match(re)\<close> for a global one-character class: the list of all matches, each a
  string of one code unit, or \<^verbatim>\<open>null\<close> when nothing matches.
\<close>

definition match_global :: "(code_unit \<Rightarrow> bool) \<Rightarrow> jsstring \<Rightarrow> jsstring list option" where
  "match_global p text =
     (let ms = map (\<lambda>c. [c]) (filter p text) in if ms = [] then None else Some ms)"

definition hasRTLCharacters :: "jsstring \<Rightarrow> bool" where
  "hasRTLCharacters text =
     (let matches = (case match_global rtlCharPattern text of None \<Rightarrow> [] | Some ms \<Rightarrow> ms)
      in (of_nat (length matches) :: rat) > of_nat (length text) * 0.1)"

definition set_dir :: "document \<Rightarrow> element \<Rightarrow> jsstring \<Rightarrow> document" where
  "set_dir doc el d = doc\<lparr>html_element := Some (el\<lparr>dir := Some d\<rparr>)\<rparr>"

text \<open>
  \<^verbatim>\<open>setPageDirection\<close>. \<open>toLowerCase\<close> stands for \<^verbatim>\<open>String.prototype.toLowerCase\<close>,
  whose Unicode case table belongs to the platform; every result below holds for each
  such function. The result is the error thrown, or the document afterwards together
  with the DOM accesses made.
\<close>

definition setPageDirection ::
  "(jsstring \<Rightarrow> jsstring) \<Rightarrow> document \<Rightarrow> js_error + (document \<times> dom_access list)" where
  "setPageDirection toLowerCase doc =
     (case html_element doc of
        None \<Rightarrow> Inl TypeError
      | Some htmlElement \<Rightarrow>
          let currentLang = or_default (lang htmlElement) (lit ''en'') in
          (case split hyphen currentLang of
             [] \<Rightarrow> Inl TypeError
           | seg # _ \<Rightarrow>
               let langCode = toLowerCase seg in
               if langCode \<in> set rtlLanguages
               then Inr (set_dir doc htmlElement (lit ''rtl''), [Get_lang, Set_dir (lit ''rtl'')])
               else
                 let pageText = or_default (innerText doc) [] in
                 if hasRTLCharacters pageText
                 then Inr (set_dir doc htmlElement (lit ''rtl''),
                           [Get_lang, Read_innerText, Set_dir (lit ''rtl'')])
                 else Inr (set_dir doc htmlElement (lit ''ltr''),
                           [Get_lang, Read_innerText, Set_dir (lit ''ltr'')])))"

text \<open>
  The resolver's \<^verbatim>\<open>DOMContentLoaded\<close> callback: the element is looked up, the direction
  is set once, and only then is the mutation observer installed. The result tells
  whether the observer is in place.
\<close>

definition resolver_onload ::
  "(jsstring \<Rightarrow> jsstring) \<Rightarrow> document \<Rightarrow> js_error + (document \<times> bool)" where
  "resolver_onload toLowerCase doc =
     (case setPageDirection toLowerCase doc of
        Inl err \<Rightarrow> Inl err
      | Inr (doc', _) \<Rightarrow> Inr (doc', True))"

text \<open>Lower-casing of ASCII letters, which is what \<^verbatim>\<open>toLowerCase\<close> does on ASCII text.\<close>

definition ascii_lower :: "jsstring \<Rightarrow> jsstring" where
  "ascii_lower s = map (\<lambda>c. if 0x41 \<le> c \<and> c \<le> 0x5A then c + 0x20 else c) s"

text \<open>
  The spec's notions, for comparison with the code: the primary subtag of the language
  attribute is the part of the tag before the first hyphen, where an absent or empty
  attribute counts as \<^verbatim>\<open>en\<close>; the RTL count of a text is the number of its code units
  in U+0590..U+08FF.
\<close>

definition primary_subtag :: "jsstring option \<Rightarrow> jsstring" where
  "primary_subtag attr = takeWhile (\<lambda>c. c \<noteq> hyphen) (or_default attr (lit ''en''))"

definition rtl_count :: "jsstring \<Rightarrow> nat" where
  "rtl_count text = length (filter (\<lambda>c. 0x0590 \<le> c \<and> c \<le> 0x08FF) text)"

definition resolved_dir :: "js_error + (document \<times> dom_access list) \<Rightarrow> jsstring option" where
  "resolved_dir r =
     (case r of
        Inl _ \<Rightarrow> None
      | Inr (doc, _) \<Rightarrow> (case html_element doc of None \<Rightarrow> None | Some el \<Rightarrow> dir el))"



definition body_text :: "document \<Rightarrow> jsstring" where
  "body_text doc = or_default (innerText doc) []"


section \<open>Binary64 arithmetic\<close>

text \<open>
  A Number: a finite value, one of the two infinities, or NaN. A finite value is kept
  as the rational it denotes; the two zeros, which no comparison and no scroll request
  tells apart, are one value.
\<close>

datatype number = Finite rat | PosInfinity | NegInfinity | NaN

text \<open>The number of binary digits of a natural number.\<close>

fun bit_length :: "nat \<Rightarrow> nat" where
  "bit_length n = (if n = 0 then 0 else Suc (bit_length (n div 2)))"

declare bit_length.simps [simp del]

definition pow2 :: "int \<Rightarrow> rat" where
  "pow2 k = (if 0 \<le> k then 2 ^ nat k else 1 / 2 ^ nat (- k))"

text \<open>The exponent \<open>e\<close> with \<open>2^e \<le> \<bar>x\<bar> < 2^(e + 1)\<close>, for \<open>x\<close> other than zero.\<close>

definition binade :: "rat \<Rightarrow> int" where
  "binade x =
     (if 1 \<le> \<bar>x\<bar> then int (bit_length (nat \<lfloor>\<bar>x\<bar>\<rfloor>)) - 1
      else - int (bit_length (nat (\<lceil>1 / \<bar>x\<bar>\<rceil> - 1))))"

text \<open>The nearest integer, a tie going to the even one.\<close>

definition round_half_even :: "rat \<Rightarrow> int" where
  "round_half_even s =
     (let n = \<lfloor>s\<rfloor>; r = s - of_int n in
      if r < 1 / 2 then n
      else if r > 1 / 2 then n + 1
      else if even n then n else n + 1)"

text \<open>
  Rounding of an exact result to binary64, to nearest with ties to even: the nearest
  value is a multiple of \<open>2^t\<close>, where \<open>t\<close> leaves 53 significant bits and is never
  below the subnormal spacing \<open>2^-1074\<close>; a rounded magnitude of \<open>2^1024\<close> or more
  overflows to an infinity.
\<close>

definition nearest_binary64 :: "rat \<Rightarrow> rat" where
  "nearest_binary64 x =
     (let t = max (binade x - 52) (- 1074)
      in sgn x * of_int (round_half_even (\<bar>x\<bar> / pow2 t)) * pow2 t)"

definition binary64_round :: "rat \<Rightarrow> number" where
  "binary64_round x =
     (if x = 0 then Finite 0
      else if 2 ^ 1024 \<le> nearest_binary64 x then PosInfinity
      else if nearest_binary64 x \<le> - (2 ^ 1024) then NegInfinity
      else Finite (nearest_binary64 x))"

text \<open>A numeric literal of the source denotes the binary64 value nearest to it.\<close>

definition literal :: "rat \<Rightarrow> number" where
  "literal x = binary64_round x"

text \<open>An infinity (positive or not) times a Number.\<close>

definition times_infinity :: "bool \<Rightarrow> number \<Rightarrow> number" where
  "times_infinity positive y =
     (case y of
        Finite b \<Rightarrow>
          if b = 0 then NaN
          else if (0 < b) = positive then PosInfinity else NegInfinity
      | PosInfinity \<Rightarrow> if positive then PosInfinity else NegInfinity
      | NegInfinity \<Rightarrow> if positive then NegInfinity else PosInfinity
      | NaN \<Rightarrow> NaN)"

text \<open>The operator \<^verbatim>\<open>*\<close> on Numbers.\<close>

definition js_times :: "number \<Rightarrow> number \<Rightarrow> number" where
  "js_times x y =
     (case x of
        Finite a \<Rightarrow>
          (case y of
             Finite b \<Rightarrow> binary64_round (a * b)
           | PosInfinity \<Rightarrow> times_infinity True x
           | NegInfinity \<Rightarrow> times_infinity False x
           | NaN \<Rightarrow> NaN)
      | PosInfinity \<Rightarrow> times_infinity True y
      | NegInfinity \<Rightarrow> times_infinity False y
      | NaN \<Rightarrow> NaN)"

text \<open>Unary minus on Numbers.\<close>

definition js_negate :: "number \<Rightarrow> number" where
  "js_negate x =
     (case x of
        Finite a \<Rightarrow> Finite (- a)
      | PosInfinity \<Rightarrow> NegInfinity
      | NegInfinity \<Rightarrow> PosInfinity
      | NaN \<Rightarrow> NaN)"


section \<open>Timeline scroll adapter\<close>

text \<open>The scroll container \<^verbatim>\<open>.timeline\<close>: the two DOM dimensions the handlers read.\<close>

record timeline =
  scrollWidth :: int
  clientWidth :: int

text \<open>
  A wheel event: the two deltas, each the rational that the finite Number in the field
  denotes, and the delta mode (0 pixels, 1 lines, 2 pages).
\<close>

record wheel_event =
  deltaX :: rat
  deltaY :: rat
  deltaMode :: nat

datatype behavior = Auto | Smooth

text \<open>
  What a handler does to its event and to the container, in program order:
  \<^verbatim>\<open>e.preventDefault()\<close> and \<^verbatim>\<open>timeline.scrollBy({ left, behavior })\<close>.
\<close>

datatype effect = PreventDefault | ScrollBy number behavior

definition canScrollHorizontally :: "timeline \<Rightarrow> bool" where
  "canScrollHorizontally tml \<longleftrightarrow> scrollWidth tml > clientWidth tml + 1"

definition normalizeDeltaY :: "wheel_event \<Rightarrow> number" where
  "normalizeDeltaY e =
     (let delta = Finite (deltaY e) in
      if deltaMode e = 1 then js_times delta (literal 16)
      else if deltaMode e = 2 then js_times delta (literal 800)
      else delta)"

definition onWheel :: "timeline \<Rightarrow> wheel_event \<Rightarrow> effect list" where
  "onWheel tml e =
     (if \<not> canScrollHorizontally tml then []
      else if \<bar>deltaY e\<bar> > \<bar>deltaX e\<bar> then
        (let delta = normalizeDeltaY e; speed = literal 1.2
         in [PreventDefault, ScrollBy (js_times delta speed) Auto])
      else [])"

text \<open>
  The \<^verbatim>\<open>keydown\<close> listener of the container, on the event's \<^verbatim>\<open>key\<close>. The integer
  \<^verbatim>\<open>clientWidth\<close> is a Number without rounding.
\<close>

definition onKeydown :: "timeline \<Rightarrow> jsstring \<Rightarrow> effect list" where
  "onKeydown tml key =
     (let small = literal 260; big = js_times (Finite (of_int (clientWidth tml))) (literal 0.8) in
      if key = lit ''ArrowRight'' then [PreventDefault, ScrollBy small Smooth]
      else if key = lit ''ArrowLeft'' then [PreventDefault, ScrollBy (js_negate small) Smooth]
      else if key = lit ''PageDown'' then [PreventDefault, ScrollBy big Smooth]
      else if key = lit ''PageUp'' then [PreventDefault, ScrollBy (js_negate big) Smooth]
      else [])"


text \<open>
  The factor \<open>f\<close> of the spec, for comparison with the code: 16 in line mode (1), 800
  in page mode (2), 1 otherwise.
\<close>

definition factor :: "nat \<Rightarrow> rat" where
  "factor m = (if m = 1 then 16 else if m = 2 then 800 else 1)"


section \<open>Milestone cards\<close>

text \<open>
  The two facts \<^verbatim>\<open>isTouchOrSmall\<close> asks the browser for, read anew at every call:
  whether \<^verbatim>\<open>'ontouchstart' in window\<close>, and whether the media query
  \<^verbatim>\<open>(max-width:480px)\<close> matches.
\<close>

record environment =
  ontouchstart :: bool
  max_width_480 :: bool

definition isTouchOrSmall :: "environment \<Rightarrow> bool" where
  "isTouchOrSmall env \<longleftrightarrow> ontouchstart env \<or> max_width_480 env"

text \<open>
  \<^verbatim>\<open>milestoneCards\<close> is the static list returned by \<^verbatim>\<open>querySelectorAll\<close>; a card is
  its index there. The state is, per card, whether its class list contains \<^verbatim>\<open>open\<close>.
\<close>

type_synonym cards = "bool list"

text \<open>
  An event target: an element, with the answers to \<^verbatim>\<open>closest('a, button')\<close> and
  \<^verbatim>\<open>closest('.milestone-card')\<close> (is there such an ancestor-or-self), or a target
  that has no \<^verbatim>\<open>closest\<close> method.
\<close>

datatype event_target = Element bool bool | No_closest

datatype class_op = Remove_open nat | Add_open nat

fun apply_class_op :: "class_op \<Rightarrow> cards \<Rightarrow> cards" where
  "apply_class_op (Remove_open i) cs = cs[i := False]"
| "apply_class_op (Add_open i) cs = cs[i := True]"

text \<open>\<^verbatim>\<open>milestoneCards.forEach(c => c.classList.remove('open'))\<close>\<close>

definition remove_open_all :: "cards \<Rightarrow> class_op list" where
  "remove_open_all cs = map Remove_open [0..<length cs]"

text \<open>
  \<^verbatim>\<open>toggleCard\<close> for the card \<^verbatim>\<open>e.currentTarget\<close> (an index below the number of
  cards) and the target \<^verbatim>\<open>e.target\<close>: the class-list operations it performs, in order.
\<close>

definition toggleCard :: "environment \<Rightarrow> cards \<Rightarrow> nat \<Rightarrow> event_target \<Rightarrow> class_op list" where
  "toggleCard env cs idx target =
     (if \<not> isTouchOrSmall env then []
      else if (case target of Element in_control _ \<Rightarrow> in_control | No_closest \<Rightarrow> False) then []
      else
        let wasOpen = cs ! idx in
        remove_open_all cs @ (if \<not> wasOpen then [Add_open idx] else []))"

text \<open>The card's \<^verbatim>\<open>keydown\<close> listener: whether it called \<^verbatim>\<open>preventDefault\<close>, and the operations.\<close>

definition cardKeydown ::
  "environment \<Rightarrow> cards \<Rightarrow> nat \<Rightarrow> jsstring \<Rightarrow> event_target \<Rightarrow> bool \<times> class_op list" where
  "cardKeydown env cs idx key target =
     (if (key = lit ''Enter'' \<or> key = lit '' '') \<and> isTouchOrSmall env
      then (True, toggleCard env cs idx target)
      else (False, []))"

text \<open>The document's \<^verbatim>\<open>click\<close> listener.\<close>

definition documentClick :: "environment \<Rightarrow> cards \<Rightarrow> event_target \<Rightarrow> js_error + class_op list" where
  "documentClick env cs target =
     (if \<not> isTouchOrSmall env then Inr []
      else
        (case target of
           No_closest \<Rightarrow> Inl TypeError
         | Element _ in_card \<Rightarrow> if \<not> in_card then Inr (remove_open_all cs) else Inr []))"

text \<open>
  One listener invocation. A click inside a card runs that card's listener and then,
  bubbling, the document's; both are events of their own here.
\<close>

datatype event =
  Card_click nat event_target
| Card_keydown nat jsstring event_target
| Document_click event_target

definition handler_ops :: "environment \<Rightarrow> event \<Rightarrow> cards \<Rightarrow> class_op list" where
  "handler_ops env ev cs =
     (case ev of
        Card_click idx target \<Rightarrow> if idx < length cs then toggleCard env cs idx target else []
      | Card_keydown idx key target \<Rightarrow>
          if idx < length cs then snd (cardKeydown env cs idx key target) else []
      | Document_click target \<Rightarrow>
          (case documentClick env cs target of Inl _ \<Rightarrow> [] | Inr ops \<Rightarrow> ops))"

definition exec_ops :: "class_op list \<Rightarrow> cards \<Rightarrow> cards" where
  "exec_ops ops cs = fold apply_class_op ops cs"

text \<open>The state after each single class-list operation.\<close>

fun states_after :: "class_op list \<Rightarrow> cards \<Rightarrow> cards list" where
  "states_after [] cs = []"
| "states_after (x # ops) cs = apply_class_op x cs # states_after ops (apply_class_op x cs)"

text \<open>
  A sequence of listener invocations, each in the environment of its moment: the final
  state, and every state passed through on the way.
\<close>

fun run :: "(environment \<times> event) list \<Rightarrow> cards \<Rightarrow> cards" where
  "run [] cs = cs"
| "run ((env, ev) # evs) cs = run evs (exec_ops (handler_ops env ev cs) cs)"

fun history :: "(environment \<times> event) list \<Rightarrow> cards \<Rightarrow> cards list" where
  "history [] cs = []"
| "history ((env, ev) # evs) cs =
     states_after (handler_ops env ev cs) cs @ history evs (exec_ops (handler_ops env ev cs) cs)"



text \<open>
  The adapter's \<^verbatim>\<open>DOMContentLoaded\<close> callback, for the result of
  \<^verbatim>\<open>document.querySelector('.timeline')\<close> and the number of milestone cards: the
  listeners it registers.
\<close>

datatype listener =
  Timeline_wheel | Timeline_keydown
| Card_click_listener nat | Card_keydown_listener nat
| Document_click_listener

definition adapter_onload :: "timeline option \<Rightarrow> nat \<Rightarrow> js_error + listener list" where
  "adapter_onload timeline n =
     (case timeline of
        None \<Rightarrow> Inr []
      | Some _ \<Rightarrow>
          Inr ([Timeline_wheel, Timeline_keydown]
               @ concat (map (\<lambda>i. [Card_click_listener i, Card_keydown_listener i]) [0..<n])
               @ [Document_click_listener]))"


section \<open>The threshold product in binary64 arithmetic\<close>

text \<open>
  In the browser \<^verbatim>\<open>text.length * 0.1\<close> is a binary64 product: the literal \<^verbatim>\<open>0.1\<close>
  denotes \<open>7205759403792794 / 2^56\<close>, and the exact product of the length with it
  is rounded to 53 significant bits, ties to even. The definitions below compute that
  rounded product, so that the comparison in \<^verbatim>\<open>hasRTLCharacters\<close> can be checked
  against the exact one used above.
\<close>

text \<open>\<open>N / 2^k\<close> rounded to the nearest integer, ties to even.\<close>

definition round_shift :: "nat \<Rightarrow> nat \<Rightarrow> nat" where
  "round_shift N k =
     (let q = N div 2 ^ k; r = N mod 2 ^ k in
      if 2 * r < 2 ^ k then q
      else if 2 * r > 2 ^ k then q + 1
      else if even q then q else q + 1)"

definition binary64_tenth :: nat where
  "binary64_tenth = 7205759403792794"

definition binary64_times_tenth :: "nat \<Rightarrow> rat" where
  "binary64_times_tenth n =
     (let N = n * binary64_tenth; k = bit_length N - 53
      in of_nat (round_shift N k * 2 ^ k) / 2 ^ 56)"

definition hasRTLCharacters_binary64 :: "jsstring \<Rightarrow> bool" where
  "hasRTLCharacters_binary64 text =
     (let matches = (case match_global rtlCharPattern text of None \<Rightarrow> [] | Some ms \<Rightarrow> ms)
      in (of_nat (length matches) :: rat) > binary64_times_tenth (length text))"


section \<open>Properties of the direction resolver\<close>

lemma split_from_hd:
  "\<exists>rest. split_from sep cur s = (cur @ takeWhile (\<lambda>c. c \<noteq> sep) s) # rest"
proof (induction s arbitrary: cur)
  case Nil
  show ?case by simp
next
  case (Cons c cs)
  show ?case using Cons [of "cur @ [c]"] by simp
qed

lemma split_hd: "\<exists>rest. split sep s = takeWhile (\<lambda>c. c \<noteq> sep) s # rest"
  using split_from_hd [of sep "[]" s] by (simp add: split_def)

lemma split_primary:
  "\<exists>rest. split hyphen (or_default (lang el) (lit ''en'')) = primary_subtag (lang el) # rest"
  using split_hd [of hyphen "or_default (lang el) (lit ''en'')"] by (simp add: primary_subtag_def)

lemma matches_length:
  "length (case match_global rtlCharPattern text of None \<Rightarrow> [] | Some ms \<Rightarrow> ms) = rtl_count text"
proof -
  have "rtlCharPattern = (\<lambda>c. 0x0590 \<le> c \<and> c \<le> 0x08FF)"
    by (rule ext) (simp add: rtlCharPattern_def)
  then show ?thesis
    by (simp add: match_global_def rtl_count_def)
qed

lemma hasRTLCharacters_iff: "hasRTLCharacters text \<longleftrightarrow> 10 * rtl_count text > length text"
proof -
  have "(of_nat (rtl_count text) :: rat) > of_nat (length text) * 0.1
          \<longleftrightarrow> (of_nat (10 * rtl_count text) :: rat) > of_nat (length text)"
    by (simp add: mult.commute)
  also have "\<dots> \<longleftrightarrow> 10 * rtl_count text > length text"
    by (simp only: of_nat_less_iff)
  finally show ?thesis
    by (simp only: hasRTLCharacters_def Let_def matches_length)
qed

lemma rtl_neq_ltr: "lit ''rtl'' \<noteq> lit ''ltr''"
  by (simp add: lit_def)

lemma resolved_dir_set_dir: "resolved_dir (Inr (set_dir doc el d, tr)) = Some d"
  by (simp add: resolved_dir_def set_dir_def)

lemma setPageDirection_rtl_language:
  assumes "html_element doc = Some el"
    and "toLowerCase (primary_subtag (lang el)) \<in> set rtlLanguages"
  shows "setPageDirection toLowerCase doc =
           Inr (set_dir doc el (lit ''rtl''), [Get_lang, Set_dir (lit ''rtl'')])"
proof -
  obtain rest where
    "split hyphen (or_default (lang el) (lit ''en'')) = primary_subtag (lang el) # rest"
    using split_primary by blast
  with assms show ?thesis by (simp add: setPageDirection_def)
qed

lemma setPageDirection_other_language:
  assumes "html_element doc = Some el"
    and "toLowerCase (primary_subtag (lang el)) \<notin> set rtlLanguages"
  shows "setPageDirection toLowerCase doc =
           (if hasRTLCharacters (body_text doc)
            then Inr (set_dir doc el (lit ''rtl''),
                      [Get_lang, Read_innerText, Set_dir (lit ''rtl'')])
            else Inr (set_dir doc el (lit ''ltr''),
                      [Get_lang, Read_innerText, Set_dir (lit ''ltr'')]))"
proof -
  obtain rest where
    "split hyphen (or_default (lang el) (lit ''en'')) = primary_subtag (lang el) # rest"
    using split_primary by blast
  with assms show ?thesis by (simp add: setPageDirection_def body_text_def)
qed



text \<open>
  Claim C2. When the root element exists and the primary subtag of its language tag is
  not an RTL code (an absent or empty tag counts as \<^verbatim>\<open>en\<close>), the direction becomes
  \<^verbatim>\<open>rtl\<close> exactly when the number of body-text code units in U+0590..U+08FF is
  strictly greater than one tenth of the text's length, and \<^verbatim>\<open>ltr\<close> exactly when it
  is at most one tenth; a proportion of exactly 10% gives \<^verbatim>\<open>ltr\<close>.
\<close>

theorem content_threshold_ten_percent:
  assumes "html_element doc = Some el"
    and "toLowerCase (primary_subtag (lang el)) \<notin> set rtlLanguages"
  shows "(resolved_dir (setPageDirection toLowerCase doc) = Some (lit ''rtl'')
            \<longleftrightarrow> (of_nat (rtl_count (body_text doc)) :: rat)
                  > of_nat (length (body_text doc)) / 10)
         \<and> (resolved_dir (setPageDirection toLowerCase doc) = Some (lit ''ltr'')
            \<longleftrightarrow> (of_nat (rtl_count (body_text doc)) :: rat)
                  \<le> of_nat (length (body_text doc)) / 10)"
proof -
  have "hasRTLCharacters (body_text doc)
          \<longleftrightarrow> (of_nat (rtl_count (body_text doc)) :: rat)
                > of_nat (length (body_text doc)) / 10"
    by (simp add: hasRTLCharacters_def Let_def matches_length)
  then show ?thesis
    using assms setPageDirection_other_language [of doc el toLowerCase] rtl_neq_ltr
    by (auto simp: resolved_dir_set_dir)
qed

theorem content_threshold_ten_percent_witness:
  "ascii_lower (primary_subtag (Some (lit ''en''))) \<notin> set rtlLanguages
   \<and> ascii_lower (primary_subtag None) \<notin> set rtlLanguages
   \<and> resolved_dir (setPageDirection ascii_lower
        \<lparr>html_element = Some \<lparr>lang = Some (lit ''en''), dir = None\<rparr>,
         innerText = Some (0x05D0 # lit ''hello wor'')\<rparr>) = Some (lit ''ltr'')
   \<and> resolved_dir (setPageDirection ascii_lower
        \<lparr>html_element = Some \<lparr>lang = None, dir = None\<rparr>,
         innerText = Some (0x05D0 # lit ''hello wo'')\<rparr>) = Some (lit ''rtl'')"
proof -
  have h: "ascii_lower (primary_subtag (lang \<lparr>lang = Some (lit ''en''), dir = None\<rparr>))
             \<notin> set rtlLanguages"
    and h': "ascii_lower (primary_subtag (lang \<lparr>lang = None, dir = None\<rparr>))
             \<notin> set rtlLanguages"
    by (simp_all add: ascii_lower_def primary_subtag_def or_default_def lit_def hyphen_def
        rtlLanguages_def)
  have c: "(of_nat (rtl_count (body_text
              \<lparr>html_element = Some \<lparr>lang = Some (lit ''en''), dir = None\<rparr>,
               innerText = Some (0x05D0 # lit ''hello wor'')\<rparr>)) :: rat)
           \<le> of_nat (length (body_text
              \<lparr>html_element = Some \<lparr>lang = Some (lit ''en''), dir = None\<rparr>,
               innerText = Some (0x05D0 # lit ''hello wor'')\<rparr>)) / 10"
    and c': "(of_nat (rtl_count (body_text
              \<lparr>html_element = Some \<lparr>lang = None, dir = None\<rparr>,
               innerText = Some (0x05D0 # lit ''hello wo'')\<rparr>)) :: rat)
           > of_nat (length (body_text
              \<lparr>html_element = Some \<lparr>lang = None, dir = None\<rparr>,
               innerText = Some (0x05D0 # lit ''hello wo'')\<rparr>)) / 10"
    by (simp_all add: body_text_def or_default_def rtl_count_def lit_def)
  show ?thesis
    using h h' c c'
      content_threshold_ten_percent [of
        "\<lparr>html_element = Some \<lparr>lang = Some (lit ''en''), dir = None\<rparr>,
          innerText = Some (0x05D0 # lit ''hello wor'')\<rparr>"
        "\<lparr>lang = Some (lit ''en''), dir = None\<rparr>" ascii_lower]
      content_threshold_ten_percent [of
        "\<lparr>html_element = Some \<lparr>lang = None, dir = None\<rparr>,
          innerText = Some (0x05D0 # lit ''hello wo'')\<rparr>"
        "\<lparr>lang = None, dir = None\<rparr>" ascii_lower]
    by simp
qed

text \<open>
  Claim C8. With an empty body text and a language tag that is not an RTL code, the
  resolver returns normally with the direction set to \<^verbatim>\<open>ltr\<close>: the comparison of
  the match count with one tenth of the length is \<open>0 > 0\<close> for the empty text, which is
  false, with the exact and with the rounded product alike, and nothing is divided.
\<close>

theorem empty_body_resolves_ltr:
  assumes "html_element doc = Some el"
    and "toLowerCase (primary_subtag (lang el)) \<notin> set rtlLanguages"
    and "body_text doc = []"
  shows "setPageDirection toLowerCase doc =
           Inr (set_dir doc el (lit ''ltr''), [Get_lang, Read_innerText, Set_dir (lit ''ltr'')])
         \<and> resolved_dir (setPageDirection toLowerCase doc) = Some (lit ''ltr'')
         \<and> \<not> hasRTLCharacters []
         \<and> \<not> hasRTLCharacters_binary64 []"
proof -
  have "\<not> hasRTLCharacters []"
    by (simp add: hasRTLCharacters_iff rtl_count_def)
  moreover have "\<not> hasRTLCharacters_binary64 []"
    by (simp add: hasRTLCharacters_binary64_def match_global_def binary64_times_tenth_def
        round_shift_def)
  ultimately show ?thesis
    using assms setPageDirection_other_language [of doc el toLowerCase]
    by (simp add: resolved_dir_set_dir)
qed

theorem empty_body_resolves_ltr_witness:
  "body_text \<lparr>html_element = Some \<lparr>lang = Some (lit ''en-US''), dir = None\<rparr>,
              innerText = Some []\<rparr> = []
   \<and> resolved_dir (setPageDirection ascii_lower
        \<lparr>html_element = Some \<lparr>lang = Some (lit ''en-US''), dir = None\<rparr>,
         innerText = Some []\<rparr>) = Some (lit ''ltr'')
   \<and> resolved_dir (setPageDirection ascii_lower
        \<lparr>html_element = Some \<lparr>lang = Some (lit ''en-US''), dir = None\<rparr>,
         innerText = None\<rparr>) = Some (lit ''ltr'')"
proof -
  have h: "ascii_lower (primary_subtag (lang \<lparr>lang = Some (lit ''en-US''), dir = None\<rparr>))
             \<notin> set rtlLanguages"
    by (simp add: ascii_lower_def primary_subtag_def or_default_def lit_def hyphen_def
        rtlLanguages_def)
  have e: "body_text \<lparr>html_element = Some \<lparr>lang = Some (lit ''en-US''), dir = None\<rparr>,
                      innerText = Some []\<rparr> = []"
    and e': "body_text \<lparr>html_element = Some \<lparr>lang = Some (lit ''en-US''), dir = None\<rparr>,
                      innerText = None\<rparr> = []"
    by (simp_all add: body_text_def or_default_def)
  show ?thesis
    using h e e'
      empty_body_resolves_ltr [of
        "\<lparr>html_element = Some \<lparr>lang = Some (lit ''en-US''), dir = None\<rparr>, innerText = Some []\<rparr>"
        "\<lparr>lang = Some (lit ''en-US''), dir = None\<rparr>" ascii_lower]
      empty_body_resolves_ltr [of
        "\<lparr>html_element = Some \<lparr>lang = Some (lit ''en-US''), dir = None\<rparr>, innerText = None\<rparr>"
        "\<lparr>lang = Some (lit ''en-US''), dir = None\<rparr>" ascii_lower]
    by (simp add: resolved_dir_set_dir)
qed


section \<open>Properties of binary64 rounding\<close>

lemma bit_length_le: "n < 2 ^ j \<Longrightarrow> bit_length n \<le> j"
proof (induction j arbitrary: n)
  case 0
  then show ?case by (simp add: bit_length.simps)
next
  case (Suc j)
  then have "n div 2 < 2 ^ j" by simp
  then have "bit_length (n div 2) \<le> j" by (rule Suc.IH)
  then show ?case by (subst bit_length.simps) simp
qed

lemma bit_length_ge: "0 < n \<Longrightarrow> 2 ^ (bit_length n - 1) \<le> n"
proof (induction n rule: bit_length.induct)
  case (1 n)
  show ?case
  proof (cases "n div 2 = 0")
    case True
    with 1 show ?thesis by (subst bit_length.simps, subst bit_length.simps) simp
  next
    case False
    then have pos: "0 < n div 2" by simp
    then have bl: "bit_length (n div 2) > 0" by (subst bit_length.simps) simp
    from 1 pos have "2 ^ (bit_length (n div 2) - 1) \<le> n div 2" by simp
    then have "2 * 2 ^ (bit_length (n div 2) - 1) \<le> n" by simp
    moreover have "bit_length n - 1 = Suc (bit_length (n div 2) - 1)"
      using 1 bl by (subst bit_length.simps) simp
    ultimately show ?thesis by simp
  qed
qed

lemma bit_length_less: "n < 2 ^ bit_length n"
proof (induction n rule: bit_length.induct)
  case (1 n)
  show ?case
  proof (cases "n = 0")
    case True
    then show ?thesis by simp
  next
    case False
    with 1 have "n div 2 < 2 ^ bit_length (n div 2)" by simp
    then have "n < 2 * 2 ^ bit_length (n div 2)" by linarith
    moreover have "bit_length n = Suc (bit_length (n div 2))"
      using False by (subst bit_length.simps) simp
    ultimately show ?thesis by simp
  qed
qed

lemma bit_length_pos: "0 < n \<Longrightarrow> 0 < bit_length n"
  by (subst bit_length.simps) simp

lemma pow2_pos: "0 < pow2 k"
  by (simp add: pow2_def)

lemma pow2_Suc: "pow2 (k + 1) = 2 * pow2 k"
proof (cases "0 \<le> k")
  case True
  then have "nat (k + 1) = Suc (nat k)" by simp
  with True show ?thesis by (simp add: pow2_def)
next
  case False
  then have "nat (- k) = Suc (nat (- (k + 1)))" by simp
  with False show ?thesis by (cases "k + 1 = 0") (auto simp: pow2_def)
qed

lemma binade_bounds:
  assumes "x \<noteq> 0"
  shows "pow2 (binade x) \<le> \<bar>x\<bar> \<and> \<bar>x\<bar> < pow2 (binade x + 1)"
proof (cases "1 \<le> \<bar>x\<bar>")
  case True
  define n where "n = nat \<lfloor>\<bar>x\<bar>\<rfloor>"
  have f1: "(1::int) \<le> \<lfloor>\<bar>x\<bar>\<rfloor>" using True by (simp add: le_floor_iff)
  then have n1: "1 \<le> n" unfolding n_def by linarith
  have fl: "of_nat n = (of_int \<lfloor>\<bar>x\<bar>\<rfloor> :: rat)" by (simp add: n_def)
  have b: "binade x = int (bit_length n) - 1" using True by (simp add: binade_def n_def)
  have bp: "0 < bit_length n" using n1 by (intro bit_length_pos) simp
  then have p1: "pow2 (binade x) = 2 ^ (bit_length n - 1)"
    by (simp add: b pow2_def nat_diff_distrib')
  have p2: "pow2 (binade x + 1) = 2 ^ bit_length n"
    by (simp add: b pow2_def)
  have "(2::nat) ^ (bit_length n - 1) \<le> n" using n1 by (intro bit_length_ge) simp
  then have "(of_nat (2 ^ (bit_length n - 1)) :: rat) \<le> of_nat n" by (simp only: of_nat_le_iff)
  also have "\<dots> \<le> \<bar>x\<bar>" by (simp add: fl)
  finally have lo: "pow2 (binade x) \<le> \<bar>x\<bar>" by (simp add: p1)
  have "\<bar>x\<bar> < of_int \<lfloor>\<bar>x\<bar>\<rfloor> + 1" by linarith
  also have "\<dots> = of_nat (n + 1)" by (simp add: fl)
  also have "\<dots> \<le> of_nat (2 ^ bit_length n)"
  proof -
    have "n + 1 \<le> 2 ^ bit_length n" using bit_length_less [of n] by simp
    then show ?thesis by (simp only: of_nat_le_iff)
  qed
  finally have "\<bar>x\<bar> < pow2 (binade x + 1)" by (simp add: p2)
  with lo show ?thesis ..
next
  case False
  define y where "y = 1 / \<bar>x\<bar>"
  have xpos: "0 < \<bar>x\<bar>" using assms by simp
  have y1: "1 < y" using False xpos by (simp add: y_def)
  define m where "m = nat (\<lceil>y\<rceil> - 1)"
  have c2: "2 \<le> \<lceil>y\<rceil>" using y1 by (simp add: le_ceiling_iff)
  then have m1: "1 \<le> m" unfolding m_def by linarith
  have mc: "(of_nat m :: rat) = of_int \<lceil>y\<rceil> - 1" using c2 by (simp add: m_def)
  define k where "k = bit_length m"
  have kp: "0 < k" using m1 unfolding k_def by (intro bit_length_pos) simp
  have b: "binade x = - int k" using False by (simp add: binade_def m_def y_def k_def)
  have p1: "pow2 (binade x) = 1 / 2 ^ k" using kp by (simp add: b pow2_def)
  have p2: "pow2 (binade x + 1) = 1 / 2 ^ (k - 1)"
  proof -
    have "pow2 (binade x + 1) = 2 * pow2 (binade x)" by (rule pow2_Suc)
    also have "\<dots> = 2 / 2 ^ k" by (simp add: p1)
    also have "\<dots> = 1 / 2 ^ (k - 1)" using kp by (cases k) simp_all
    finally show ?thesis .
  qed
  have "y \<le> of_int \<lceil>y\<rceil>" by simp
  also have "\<dots> = of_nat (m + 1)" by (simp add: mc)
  also have "\<dots> \<le> of_nat (2 ^ k)"
  proof -
    have "m + 1 \<le> 2 ^ k" using bit_length_less [of m] by (simp add: k_def)
    then show ?thesis by (simp only: of_nat_le_iff)
  qed
  finally have "y \<le> 2 ^ k" by simp
  then have lo: "1 / 2 ^ k \<le> \<bar>x\<bar>"
    using xpos by (simp add: y_def field_simps)
  have "(2::nat) ^ (k - 1) \<le> m" unfolding k_def using m1 by (intro bit_length_ge) simp
  then have "(of_nat (2 ^ (k - 1)) :: rat) \<le> of_nat m" by (simp only: of_nat_le_iff)
  also have "\<dots> < y" using mc by linarith
  finally have "2 ^ (k - 1) < y" by simp
  then have "\<bar>x\<bar> < 1 / 2 ^ (k - 1)"
    using xpos by (simp add: y_def field_simps)
  with lo show ?thesis by (simp add: p1 p2)
qed

lemma round_half_even_error: "\<bar>of_int (round_half_even s) - s\<bar> \<le> 1 / 2"
proof -
  have "of_int \<lfloor>s\<rfloor> \<le> s" "s < of_int \<lfloor>s\<rfloor> + 1" by linarith+
  then show ?thesis
    by (auto simp: round_half_even_def Let_def)
qed


lemma pow2_powi: "pow2 k = 2 powi k"
  by (simp add: pow2_def power_int_def power_one_over [symmetric] inverse_eq_divide)

lemma pow2_diff: "pow2 (k - int n) * 2 ^ n = pow2 k"
  using power_int_add [of "2::rat" "k - int n" "int n"] by (simp add: pow2_powi)

lemma pow2_mono: "a \<le> b \<Longrightarrow> pow2 a \<le> pow2 b"
  by (simp add: pow2_powi power_int_increasing)

lemma nearest_binary64_error:
  assumes "x \<noteq> 0"
  shows "\<bar>nearest_binary64 x - x\<bar> \<le> pow2 (max (binade x - 52) (- 1074)) / 2"
proof -
  define t where "t = max (binade x - 52) (- 1074)"
  define P where "P = pow2 t"
  define r where "r = round_half_even (\<bar>x\<bar> / P)"
  have Ppos: "0 < P" by (simp add: P_def pow2_pos)
  have y: "nearest_binary64 x = sgn x * of_int r * P"
    by (simp add: nearest_binary64_def Let_def t_def P_def r_def)
  have "x = sgn x * \<bar>x\<bar>" by (simp add: sgn_mult_abs)
  then have "nearest_binary64 x - x = sgn x * (of_int r * P - \<bar>x\<bar>)"
    by (simp add: y algebra_simps)
  then have "\<bar>nearest_binary64 x - x\<bar> = \<bar>of_int r * P - \<bar>x\<bar>\<bar>"
    using assms by (simp add: abs_mult abs_sgn_eq)
  also have "\<dots> = \<bar>of_int r - \<bar>x\<bar> / P\<bar> * P"
  proof -
    have "of_int r * P - \<bar>x\<bar> = (of_int r - \<bar>x\<bar> / P) * P"
      using Ppos by (simp add: field_simps)
    then show ?thesis using Ppos by (simp add: abs_mult)
  qed
  also have "\<dots> \<le> (1 / 2) * P"
    using round_half_even_error [of "\<bar>x\<bar> / P"] Ppos
    unfolding r_def by (intro mult_right_mono) simp_all
  finally show ?thesis by (simp add: P_def t_def)
qed

lemma binary64_round_accuracy:
  assumes "1 / 2 ^ 1022 \<le> \<bar>x\<bar>" and "\<bar>x\<bar> < 2 ^ 1023"
  shows "\<exists>r. binary64_round x = Finite r \<and> \<bar>r - x\<bar> \<le> \<bar>x\<bar> / 2 ^ 53"
proof -
  have nz: "x \<noteq> 0" using assms(1) by auto
  have "pow2 (- 1022) \<le> \<bar>x\<bar>" using assms(1) by (simp add: pow2_def)
  also have "\<bar>x\<bar> < pow2 (binade x + 1)" using binade_bounds [OF nz] by simp
  finally have "\<not> pow2 (binade x + 1) \<le> pow2 (- 1022)" by simp
  then have "\<not> binade x + 1 \<le> - 1022" using pow2_mono by blast
  then have t: "max (binade x - 52) (- 1074) = binade x - 52" by simp
  have "pow2 (binade x - 52) * 2 ^ 52 = pow2 (binade x)"
    using pow2_diff [of "binade x" 52] by simp
  then have "pow2 (binade x - 52) = pow2 (binade x) / 2 ^ 52"
    by (simp add: field_simps)
  also have "\<dots> \<le> \<bar>x\<bar> / 2 ^ 52"
    using binade_bounds [OF nz] by (simp add: divide_right_mono)
  finally have q: "pow2 (binade x - 52) / 2 \<le> \<bar>x\<bar> / 2 ^ 53" by simp
  have err: "\<bar>nearest_binary64 x - x\<bar> \<le> \<bar>x\<bar> / 2 ^ 53"
    using nearest_binary64_error [OF nz] q by (simp add: t)
  have "\<bar>x\<bar> / 2 ^ 53 \<le> \<bar>x\<bar>" by (simp add: field_simps)
  with err have "\<bar>nearest_binary64 x\<bar> \<le> 2 * \<bar>x\<bar>" by linarith
  with assms(2) have "\<bar>nearest_binary64 x\<bar> < 2 ^ 1024" by simp
  then have "\<not> 2 ^ 1024 \<le> nearest_binary64 x" and "\<not> nearest_binary64 x \<le> - (2 ^ 1024)"
    by (simp_all add: abs_less_iff not_le)
  then have "binary64_round x = Finite (nearest_binary64 x)"
    using nz by (simp only: binary64_round_def if_False)
  with err show ?thesis by blast
qed



section \<open>Properties of the timeline scroll adapter\<close>

lemma floor_rat_numeral: "\<lfloor>numeral a / numeral b :: rat\<rfloor> = numeral a div numeral b"
  using floor_divide_of_int_eq [of "numeral a" "numeral b", where ?'a = rat] by simp

lemma ceiling_rat_numeral:
  "\<lceil>numeral a / numeral b :: rat\<rceil> = - (- numeral a div numeral b)"
  using ceiling_divide_eq_div [of "numeral a" "numeral b", where ?'a = rat] by simp

text \<open>The equations that evaluate the arithmetic on numerals.\<close>

lemmas binary64_eval =
  literal_def js_times_def js_negate_def times_infinity_def binary64_round_def binade_def
  nearest_binary64_def round_half_even_def pow2_def bit_length.simps Let_def floor_rat_numeral
  ceiling_rat_numeral

lemma literal_integers:
  "literal 16 = Finite 16" "literal 800 = Finite 800" "literal 260 = Finite 260"
  by (simp_all add: binary64_eval)

lemma literal_fractions:
  "literal 1.2 = Finite (5404319552844595 / 2 ^ 52)"
  "literal 0.8 = Finite (3602879701896397 / 2 ^ 52)"
  by (simp_all add: binary64_eval)

lemma onWheel_cases:
  "onWheel tml e =
     (if scrollWidth tml > clientWidth tml + 1 \<and> \<bar>deltaY e\<bar> > \<bar>deltaX e\<bar>
      then [PreventDefault, ScrollBy (js_times (normalizeDeltaY e) (literal 1.2)) Auto]
      else [])"
  by (simp add: onWheel_def canScrollHorizontally_def Let_def)

lemma normalizeDeltaY_cases:
  "normalizeDeltaY e =
     (if deltaMode e = 1 then js_times (Finite (deltaY e)) (Finite 16)
      else if deltaMode e = 2 then js_times (Finite (deltaY e)) (Finite 800)
      else Finite (deltaY e))"
  by (simp add: normalizeDeltaY_def literal_integers)

lemma onKeydown_four_keys:
  "onKeydown tml (lit ''ArrowRight'') = [PreventDefault, ScrollBy (Finite 260) Smooth]"
  "onKeydown tml (lit ''ArrowLeft'') = [PreventDefault, ScrollBy (Finite (- 260)) Smooth]"
  "onKeydown tml (lit ''PageDown'')
     = [PreventDefault,
        ScrollBy (js_times (Finite (of_int (clientWidth tml))) (literal 0.8)) Smooth]"
  "onKeydown tml (lit ''PageUp'')
     = [PreventDefault,
        ScrollBy (js_negate (js_times (Finite (of_int (clientWidth tml))) (literal 0.8)))
          Smooth]"
  by (simp_all add: onKeydown_def lit_def literal_integers js_negate_def)

lemma js_times_accuracy:
  assumes "1 / 2 ^ 1022 \<le> \<bar>a * b\<bar>" and "\<bar>a * b\<bar> < 2 ^ 1023"
  shows "\<exists>r. js_times (Finite a) (Finite b) = Finite r \<and> \<bar>r - a * b\<bar> \<le> \<bar>a * b\<bar> / 2 ^ 53"
  using binary64_round_accuracy [OF assms] by (simp add: js_times_def)

lemma speed_accuracy:
  assumes "1 / 2 ^ 1001 \<le> \<bar>a\<bar>" and "\<bar>a\<bar> \<le> 2 ^ 1011"
  shows "\<exists>r. js_times (Finite a) (literal 1.2) = Finite r
             \<and> \<bar>r - a * 1.2\<bar> \<le> \<bar>a\<bar> * (4 / 5) / 2 ^ 52"
proof -
  define c :: rat where "c = 5404319552844595 / 2 ^ 52"
  have lit: "literal 1.2 = Finite c" using literal_fractions(1) by (simp add: c_def)
  have ac: "\<bar>a * c\<bar> = \<bar>a\<bar> * c" by (simp add: abs_mult c_def)
  have lo: "1 / 2 ^ 1022 \<le> \<bar>a * c\<bar>"
  proof -
    have "(1 / 2 ^ 1022 :: rat) \<le> 1 / 2 ^ 1001 * c" by (simp add: c_def)
    also have "\<dots> \<le> \<bar>a\<bar> * c" using assms(1) by (intro mult_right_mono) (simp_all add: c_def)
    finally show ?thesis by (simp add: ac)
  qed
  have hi: "\<bar>a * c\<bar> < 2 ^ 1023"
  proof -
    have "\<bar>a\<bar> * c \<le> 2 ^ 1011 * c" using assms(2) by (intro mult_right_mono) (simp_all add: c_def)
    also have "\<dots> < 2 ^ 1023" by (simp add: c_def)
    finally show ?thesis by (simp add: ac)
  qed
  obtain r where r: "js_times (Finite a) (Finite c) = Finite r"
    and e: "\<bar>r - a * c\<bar> \<le> \<bar>a * c\<bar> / 2 ^ 53"
    using js_times_accuracy [OF lo hi] by blast
  have "a * c - a * 1.2 = - a * (1 / (5 * 2 ^ 52))" by (simp add: c_def field_simps)
  then have d: "\<bar>a * c - a * 1.2\<bar> = \<bar>a\<bar> * (1 / (5 * 2 ^ 52))" by (simp add: abs_mult)
  have "\<bar>r - a * 1.2\<bar> \<le> \<bar>r - a * c\<bar> + \<bar>a * c - a * 1.2\<bar>" by linarith
  also have "\<dots> \<le> \<bar>a\<bar> * c / 2 ^ 53 + \<bar>a\<bar> * (1 / (5 * 2 ^ 52))" using e d ac by simp
  also have "\<dots> \<le> \<bar>a\<bar> * (4 / 5) / 2 ^ 52" by (simp add: c_def field_simps)
  finally show ?thesis using r lit by auto
qed

lemma wheel_offset_accuracy:
  assumes "onWheel tml e \<noteq> []" and "1 / 2 ^ 1000 \<le> \<bar>deltaY e\<bar>" and "\<bar>deltaY e\<bar> \<le> 2 ^ 1000"
  shows "\<exists>r. onWheel tml e = [PreventDefault, ScrollBy (Finite r) Auto]
             \<and> \<bar>r - deltaY e * factor (deltaMode e) * 1.2\<bar>
                 \<le> \<bar>deltaY e * factor (deltaMode e)\<bar> / 2 ^ 51"
proof -
  define f where "f = factor (deltaMode e)"
  define d where "d = deltaY e"
  have f: "f = 1 \<or> f = 16 \<or> f = 800" by (simp add: f_def factor_def)
  have df: "\<bar>d * f\<bar> = \<bar>d\<bar> * f" using f by (auto simp: abs_mult)
  have lo: "1 / 2 ^ 1000 \<le> \<bar>d * f\<bar>" using f assms(2) by (auto simp: df d_def)
  have hi: "\<bar>d * f\<bar> \<le> 2 ^ 1010" using f assms(3) by (auto simp: df d_def)
  have n: "\<exists>s. normalizeDeltaY e = Finite s \<and> \<bar>s - d * f\<bar> \<le> \<bar>d * f\<bar> / 2 ^ 53"
  proof (cases "deltaMode e = 1 \<or> deltaMode e = 2")
    case True
    then have "normalizeDeltaY e = js_times (Finite d) (Finite f)"
      by (auto simp: normalizeDeltaY_cases f_def factor_def d_def)
    moreover have "1 / 2 ^ 1022 \<le> \<bar>d * f\<bar>" using lo by (rule order_trans [rotated]) simp
    moreover have "\<bar>d * f\<bar> < 2 ^ 1023" using hi by (rule le_less_trans) simp
    ultimately show ?thesis using js_times_accuracy [of d f] by simp
  next
    case False
    then have "normalizeDeltaY e = Finite d" and "f = 1"
      by (auto simp: normalizeDeltaY_cases f_def factor_def d_def)
    then show ?thesis by simp
  qed
  then obtain s where s: "normalizeDeltaY e = Finite s"
    and es: "\<bar>s - d * f\<bar> \<le> \<bar>d * f\<bar> / 2 ^ 53" by blast
  have s1: "\<bar>s\<bar> \<le> \<bar>d * f\<bar> + \<bar>d * f\<bar> / 2 ^ 53" and s2: "\<bar>d * f\<bar> - \<bar>d * f\<bar> / 2 ^ 53 \<le> \<bar>s\<bar>"
    using es by linarith+
  have "1 / 2 ^ 1001 \<le> \<bar>s\<bar>" using s2 lo by (simp add: field_simps) 
  moreover have "\<bar>s\<bar> \<le> 2 ^ 1011" using s1 hi by (simp add: field_simps)
  ultimately obtain r where r: "js_times (Finite s) (literal 1.2) = Finite r"
    and er: "\<bar>r - s * 1.2\<bar> \<le> \<bar>s\<bar> * (4 / 5) / 2 ^ 52"
    using speed_accuracy [of s] by blast
  have "\<bar>r - d * f * 1.2\<bar> \<le> \<bar>d * f\<bar> / 2 ^ 51"
  proof -
    define u where "u = d * f"
    have "\<bar>s - u\<bar> \<le> \<bar>u\<bar> / 2 ^ 53" using es by (simp add: u_def)
    moreover have "\<bar>r - s * (6 / 5)\<bar> \<le> \<bar>s\<bar> * (4 / 5) / 2 ^ 52" using er by simp
    ultimately have "\<bar>r - u * (6 / 5)\<bar> \<le> \<bar>u\<bar> / 2 ^ 51" by (simp add: abs_if split: if_splits) 
    then show ?thesis by (simp add: u_def)
  qed
  moreover have "onWheel tml e = [PreventDefault, ScrollBy (Finite r) Auto]"
    using assms(1) s r by (simp add: onWheel_cases split: if_splits)
  ultimately show ?thesis by (auto simp: d_def f_def)
qed

lemma page_offset_accuracy:
  assumes "\<bar>clientWidth tml\<bar> < 2 ^ 31"
  shows "\<exists>r. js_times (Finite (of_int (clientWidth tml))) (literal 0.8) = Finite r
             \<and> \<bar>r - 0.8 * of_int (clientWidth tml)\<bar> \<le> \<bar>of_int (clientWidth tml)\<bar> / 2 ^ 52"
proof (cases "clientWidth tml = 0")
  case True
  have "js_times (Finite 0) (literal 0.8) = Finite 0"
    using literal_fractions(2) by (simp add: js_times_def binary64_round_def)
  with True show ?thesis by simp
next
  case False
  define w :: rat where "w = of_int (clientWidth tml)"
  define c :: rat where "c = 3602879701896397 / 2 ^ 52"
  have lit: "literal 0.8 = Finite c" using literal_fractions(2) by (simp add: c_def)
  have "1 \<le> \<bar>clientWidth tml\<bar>" using False by linarith
  then have "(of_int 1 :: rat) \<le> of_int \<bar>clientWidth tml\<bar>" by (simp only: of_int_le_iff)
  then have w1: "1 \<le> \<bar>w\<bar>" by (simp add: w_def)
  have "(of_int \<bar>clientWidth tml\<bar> :: rat) < of_int (2 ^ 31)"
    using assms by (simp only: of_int_less_iff)
  then have w2: "\<bar>w\<bar> < 2 ^ 31" by (simp add: w_def)
  have wc: "\<bar>w * c\<bar> = \<bar>w\<bar> * c" by (simp add: abs_mult c_def)
  have lo: "1 / 2 ^ 1022 \<le> \<bar>w * c\<bar>"
  proof -
    have "(1 / 2 ^ 1022 :: rat) \<le> 1 * c" by (simp add: c_def)
    also have "\<dots> \<le> \<bar>w\<bar> * c" using w1 by (intro mult_right_mono) (simp_all add: c_def)
    finally show ?thesis by (simp add: wc)
  qed
  have hi: "\<bar>w * c\<bar> < 2 ^ 1023"
  proof -
    have "\<bar>w\<bar> * c \<le> 2 ^ 31 * c" using w2 by (intro mult_right_mono) (simp_all add: c_def)
    also have "\<dots> < 2 ^ 1023" by (simp add: c_def)
    finally show ?thesis by (simp add: wc)
  qed
  obtain r where r: "js_times (Finite w) (Finite c) = Finite r"
    and e: "\<bar>r - w * c\<bar> \<le> \<bar>w * c\<bar> / 2 ^ 53"
    using js_times_accuracy [OF lo hi] by blast
  have "\<bar>r - w * c\<bar> \<le> \<bar>w\<bar> * c / 2 ^ 53" using e wc by simp
  then have "\<bar>r - (4 / 5) * w\<bar> \<le> \<bar>w\<bar> / 2 ^ 52"
    by (simp add: c_def abs_if split: if_splits)
  with r lit show ?thesis by (auto simp: w_def)
qed

text \<open>
  Claim C1. The wheel handler calls \<^verbatim>\<open>preventDefault\<close>, and likewise requests a
  scroll, if and only if \<^verbatim>\<open>scrollWidth > clientWidth + 1\<close> and
  \<open>\<bar>deltaY\<bar> > \<bar>deltaX\<bar>\<close>; in every other case it does nothing at all.
\<close>

theorem wheel_transforms_iff:
  "(PreventDefault \<in> set (onWheel tml e)
      \<longleftrightarrow> scrollWidth tml > clientWidth tml + 1 \<and> \<bar>deltaY e\<bar> > \<bar>deltaX e\<bar>)
   \<and> ((\<exists>left b. ScrollBy left b \<in> set (onWheel tml e))
      \<longleftrightarrow> scrollWidth tml > clientWidth tml + 1 \<and> \<bar>deltaY e\<bar> > \<bar>deltaX e\<bar>)
   \<and> (\<not> (scrollWidth tml > clientWidth tml + 1 \<and> \<bar>deltaY e\<bar> > \<bar>deltaX e\<bar>)
      \<longrightarrow> onWheel tml e = [])"
proof (cases "scrollWidth tml > clientWidth tml + 1 \<and> \<bar>deltaY e\<bar> > \<bar>deltaX e\<bar>")
  case True
  then have "onWheel tml e
               = [PreventDefault, ScrollBy (js_times (normalizeDeltaY e) (literal 1.2)) Auto]"
    by (simp add: onWheel_cases)
  then have "PreventDefault \<in> set (onWheel tml e)"
    and "ScrollBy (js_times (normalizeDeltaY e) (literal 1.2)) Auto \<in> set (onWheel tml e)"
    by simp_all
  with True show ?thesis by blast
next
  case False
  then have "onWheel tml e = []"
    by (simp add: onWheel_cases)
  with False show ?thesis by simp
qed

theorem wheel_transforms_iff_witness:
  "PreventDefault \<in> set (onWheel \<lparr>scrollWidth = 1000, clientWidth = 500\<rparr>
                                  \<lparr>deltaX = 0, deltaY = 100, deltaMode = 0\<rparr>)
   \<and> \<not> (scrollWidth \<lparr>scrollWidth = 500, clientWidth = 500\<rparr>
          > clientWidth \<lparr>scrollWidth = 500, clientWidth = 500\<rparr> + 1
        \<and> \<bar>deltaY \<lparr>deltaX = 0, deltaY = 100, deltaMode = 0\<rparr>\<bar>
          > \<bar>deltaX \<lparr>deltaX = 0, deltaY = 100, deltaMode = 0\<rparr>\<bar>)
   \<and> onWheel \<lparr>scrollWidth = 500, clientWidth = 500\<rparr>
              \<lparr>deltaX = 0, deltaY = 100, deltaMode = 0\<rparr> = []
   \<and> onWheel \<lparr>scrollWidth = 1000, clientWidth = 500\<rparr>
              \<lparr>deltaX = 7, deltaY = -7, deltaMode = 0\<rparr> = []"
  using wheel_transforms_iff [of "\<lparr>scrollWidth = 1000, clientWidth = 500\<rparr>"
                                 "\<lparr>deltaX = 0, deltaY = 100, deltaMode = 0\<rparr>"]
    wheel_transforms_iff [of "\<lparr>scrollWidth = 500, clientWidth = 500\<rparr>"
                             "\<lparr>deltaX = 0, deltaY = 100, deltaMode = 0\<rparr>"]
    wheel_transforms_iff [of "\<lparr>scrollWidth = 1000, clientWidth = 500\<rparr>"
                             "\<lparr>deltaX = 7, deltaY = -7, deltaMode = 0\<rparr>"]
  by simp

text \<open>
  Claim C5, as stated, fails: the claim gives the offset as the exact product
  \<open>deltaY * f * 1.2\<close>, and for \<open>deltaY = 3\<close> in pixel mode that is \<open>18/5\<close>, whereas
  the handler requests \<open>2026619832316723 / 2^49\<close> (3.5999999999999996), the binary64
  product of 3 and the literal \<^verbatim>\<open>1.2\<close>.
\<close>

theorem wheel_scroll_offset_counterexample:
  "onWheel \<lparr>scrollWidth = 1000, clientWidth = 500\<rparr> \<lparr>deltaX = 0, deltaY = 3, deltaMode = 0\<rparr>
     = [PreventDefault, ScrollBy (Finite (2026619832316723 / 2 ^ 49)) Auto]
   \<and> onWheel \<lparr>scrollWidth = 1000, clientWidth = 500\<rparr> \<lparr>deltaX = 0, deltaY = 3, deltaMode = 0\<rparr>
     \<noteq> [PreventDefault, ScrollBy (Finite (3 * 1 * 1.2)) Auto]"
  by (simp add: onWheel_def canScrollHorizontally_def normalizeDeltaY_def binary64_eval)

text \<open>
  Claim C5, amended. Whenever the wheel handler transforms an event, it suppresses the
  default action and passes to \<^verbatim>\<open>scrollBy\<close> the product \<open>deltaY * f * 1.2\<close> as
  binary64 arithmetic computes it: \<open>deltaY\<close> times \<open>f\<close>, rounded, times the binary64
  value of the literal \<^verbatim>\<open>1.2\<close>, rounded again, with \<open>f = 16\<close> in line mode (1) and
  \<open>f = 800\<close> in page mode (2); in pixel mode (0) the factor is 1 and \<open>deltaY\<close> is
  multiplied by \<^verbatim>\<open>1.2\<close> only. For a delta of magnitude between \<open>2^-1000\<close> and
  \<open>2^1000\<close> the requested offset is finite and differs from the exact product
  \<open>deltaY * f * 1.2\<close> by at most \<open>\<bar>deltaY * f\<bar> / 2^51\<close>.
\<close>

theorem wheel_scroll_offset:
  assumes "onWheel tml e \<noteq> []"
  shows "(deltaMode e = 1
            \<longrightarrow> onWheel tml e
                = [PreventDefault,
                   ScrollBy (js_times (js_times (Finite (deltaY e)) (Finite 16)) (literal 1.2))
                     Auto])
       \<and> (deltaMode e = 2
            \<longrightarrow> onWheel tml e
                = [PreventDefault,
                   ScrollBy (js_times (js_times (Finite (deltaY e)) (Finite 800)) (literal 1.2))
                     Auto])
       \<and> (deltaMode e = 0
            \<longrightarrow> onWheel tml e
                = [PreventDefault, ScrollBy (js_times (Finite (deltaY e)) (literal 1.2)) Auto])
       \<and> (1 / 2 ^ 1000 \<le> \<bar>deltaY e\<bar> \<and> \<bar>deltaY e\<bar> \<le> 2 ^ 1000
            \<longrightarrow> (\<exists>r. onWheel tml e = [PreventDefault, ScrollBy (Finite r) Auto]
                     \<and> \<bar>r - deltaY e * factor (deltaMode e) * 1.2\<bar>
                         \<le> \<bar>deltaY e * factor (deltaMode e)\<bar> / 2 ^ 51))"
proof -
  have "(deltaMode e = 1
            \<longrightarrow> onWheel tml e
                = [PreventDefault,
                   ScrollBy (js_times (js_times (Finite (deltaY e)) (Finite 16)) (literal 1.2))
                     Auto])
       \<and> (deltaMode e = 2
            \<longrightarrow> onWheel tml e
                = [PreventDefault,
                   ScrollBy (js_times (js_times (Finite (deltaY e)) (Finite 800)) (literal 1.2))
                     Auto])
       \<and> (deltaMode e = 0
            \<longrightarrow> onWheel tml e
                = [PreventDefault, ScrollBy (js_times (Finite (deltaY e)) (literal 1.2)) Auto])"
    using assms by (simp add: onWheel_cases normalizeDeltaY_cases split: if_splits)
  then show ?thesis
    using wheel_offset_accuracy [OF assms] by blast
qed

theorem wheel_scroll_offset_witness:
  "onWheel \<lparr>scrollWidth = 1000, clientWidth = 500\<rparr> \<lparr>deltaX = 0, deltaY = 100, deltaMode = 0\<rparr>
     = [PreventDefault, ScrollBy (Finite 120) Auto]
   \<and> normalizeDeltaY \<lparr>deltaX = 0, deltaY = 10, deltaMode = 1\<rparr> = Finite 160
   \<and> onWheel \<lparr>scrollWidth = 1000, clientWidth = 500\<rparr> \<lparr>deltaX = 0, deltaY = 10, deltaMode = 1\<rparr>
     = [PreventDefault, ScrollBy (Finite 192) Auto]
   \<and> onWheel \<lparr>scrollWidth = 1000, clientWidth = 500\<rparr> \<lparr>deltaX = 0, deltaY = 1, deltaMode = 2\<rparr>
     = [PreventDefault, ScrollBy (Finite 960) Auto]"
proof -
  have a: "onWheel \<lparr>scrollWidth = 1000, clientWidth = 500\<rparr>
             \<lparr>deltaX = 0, deltaY = 100, deltaMode = 0\<rparr> \<noteq> []"
    and b: "onWheel \<lparr>scrollWidth = 1000, clientWidth = 500\<rparr>
             \<lparr>deltaX = 0, deltaY = 10, deltaMode = 1\<rparr> \<noteq> []"
    and c: "onWheel \<lparr>scrollWidth = 1000, clientWidth = 500\<rparr>
             \<lparr>deltaX = 0, deltaY = 1, deltaMode = 2\<rparr> \<noteq> []"
    by (simp_all add: onWheel_cases)
  have v: "js_times (Finite 100) (literal 1.2) = Finite 120"
    "js_times (Finite 10) (Finite 16) = Finite 160"
    "js_times (Finite 160) (literal 1.2) = Finite 192"
    "js_times (Finite 1) (Finite 800) = Finite 800"
    "js_times (Finite 800) (literal 1.2) = Finite 960"
    by (simp_all add: binary64_eval)
  have n: "normalizeDeltaY \<lparr>deltaX = 0, deltaY = 10, deltaMode = 1\<rparr> = Finite 160"
    by (simp add: normalizeDeltaY_cases v)
  show ?thesis
    using wheel_scroll_offset [OF a] wheel_scroll_offset [OF b] wheel_scroll_offset [OF c] n v
    by simp
qed

text \<open>
  Claim C6, as stated, fails: the claim gives the PageDown offset as the exact product
  \<open>0.8 * clientWidth\<close>, and for \<open>clientWidth = 503\<close> that is \<open>2012/5\<close>, whereas the
  listener requests \<open>7079095664272999 / 2^44\<close> (402.40000000000003), the binary64
  product of 503 and the literal \<^verbatim>\<open>0.8\<close>.
\<close>

theorem keyboard_scroll_requests_counterexample:
  "onKeydown \<lparr>scrollWidth = 2000, clientWidth = 503\<rparr> (lit ''PageDown'')
     = [PreventDefault, ScrollBy (Finite (7079095664272999 / 2 ^ 44)) Smooth]
   \<and> onKeydown \<lparr>scrollWidth = 2000, clientWidth = 503\<rparr> (lit ''PageDown'')
     \<noteq> [PreventDefault, ScrollBy (Finite (0.8 * 503)) Smooth]"
  by (simp add: onKeydown_def lit_def binary64_eval)

text \<open>
  Claim C6, amended. On the container's \<^verbatim>\<open>keydown\<close> listener, ArrowRight requests a
  relative scroll of +260 and ArrowLeft of -260; PageDown requests the binary64 product
  of \<^verbatim>\<open>clientWidth\<close> and the literal \<^verbatim>\<open>0.8\<close> (the exact product rounded to
  binary64) and PageUp the negation of that product; each of the four first suppresses
  the default action and asks for the \<^verbatim>\<open>smooth\<close> behavior. For a \<^verbatim>\<open>clientWidth\<close>
  in the range of a 32-bit DOM integer the product is finite and differs from the
  exact \<open>0.8 * clientWidth\<close> by at most \<open>\<bar>clientWidth\<bar> / 2^52\<close>.
\<close>

theorem keyboard_scroll_requests:
  "onKeydown tml (lit ''ArrowRight'') = [PreventDefault, ScrollBy (Finite 260) Smooth]
   \<and> onKeydown tml (lit ''ArrowLeft'') = [PreventDefault, ScrollBy (Finite (- 260)) Smooth]
   \<and> onKeydown tml (lit ''PageDown'')
       = [PreventDefault,
          ScrollBy (js_times (Finite (of_int (clientWidth tml))) (literal 0.8)) Smooth]
   \<and> onKeydown tml (lit ''PageUp'')
       = [PreventDefault,
          ScrollBy (js_negate (js_times (Finite (of_int (clientWidth tml))) (literal 0.8)))
            Smooth]
   \<and> (\<bar>clientWidth tml\<bar> < 2 ^ 31
        \<longrightarrow> (\<exists>r. onKeydown tml (lit ''PageDown'') = [PreventDefault, ScrollBy (Finite r) Smooth]
                 \<and> onKeydown tml (lit ''PageUp'')
                     = [PreventDefault, ScrollBy (Finite (- r)) Smooth]
                 \<and> \<bar>r - 0.8 * of_int (clientWidth tml)\<bar>
                     \<le> \<bar>of_int (clientWidth tml)\<bar> / 2 ^ 52))"
proof -
  have "\<exists>r. onKeydown tml (lit ''PageDown'') = [PreventDefault, ScrollBy (Finite r) Smooth]
            \<and> onKeydown tml (lit ''PageUp'') = [PreventDefault, ScrollBy (Finite (- r)) Smooth]
            \<and> \<bar>r - 0.8 * of_int (clientWidth tml)\<bar> \<le> \<bar>of_int (clientWidth tml)\<bar> / 2 ^ 52"
    if range: "\<bar>clientWidth tml\<bar> < 2 ^ 31"
  proof -
    obtain r where
      r: "js_times (Finite (of_int (clientWidth tml))) (literal 0.8) = Finite r"
      and e: "\<bar>r - 0.8 * of_int (clientWidth tml)\<bar> \<le> \<bar>of_int (clientWidth tml)\<bar> / 2 ^ 52"
      using page_offset_accuracy [OF range] by blast
    have "js_negate (Finite r) = Finite (- r)"
      by (simp add: js_negate_def)
    with r e show ?thesis
      by (auto simp only: onKeydown_four_keys)
  qed
  then show ?thesis
    using onKeydown_four_keys [of tml] by blast
qed

theorem keyboard_scroll_requests_witness:
  "\<bar>clientWidth \<lparr>scrollWidth = 2000, clientWidth = 500\<rparr>\<bar> < 2 ^ 31
   \<and> onKeydown \<lparr>scrollWidth = 2000, clientWidth = 500\<rparr> (lit ''PageDown'')
     = [PreventDefault, ScrollBy (Finite 400) Smooth]
   \<and> onKeydown \<lparr>scrollWidth = 2000, clientWidth = 500\<rparr> (lit ''PageUp'')
     = [PreventDefault, ScrollBy (Finite (- 400)) Smooth]
   \<and> onKeydown \<lparr>scrollWidth = 2000, clientWidth = 500\<rparr> (lit ''ArrowLeft'')
     = [PreventDefault, ScrollBy (Finite (- 260)) Smooth]"
proof -
  have v: "js_times (Finite (of_int (clientWidth \<lparr>scrollWidth = 2000, clientWidth = 500\<rparr>)))
             (literal 0.8) = Finite 400"
    by (simp add: binary64_eval)
  show ?thesis
    using keyboard_scroll_requests [of "\<lparr>scrollWidth = 2000, clientWidth = 500\<rparr>"] v
    by (simp add: js_negate_def)
qed

text \<open>
  Claim C10. For the four keys the keyboard path suppresses the default action and
  requests its smooth scroll also when the container does not overflow
  (\<^verbatim>\<open>scrollWidth <= clientWidth + 1\<close>): what it does is the same for every
  \<^verbatim>\<open>scrollWidth\<close>, while the wheel handler does nothing on such a container.
\<close>

theorem keyboard_ignores_overflow:
  assumes "key \<in> {lit ''ArrowRight'', lit ''ArrowLeft'', lit ''PageDown'', lit ''PageUp''}"
    and "scrollWidth tml \<le> clientWidth tml + 1"
  shows "PreventDefault \<in> set (onKeydown tml key)
       \<and> (\<exists>left. ScrollBy left Smooth \<in> set (onKeydown tml key))
       \<and> onKeydown (tml\<lparr>scrollWidth := w\<rparr>) key = onKeydown tml key
       \<and> onWheel tml e = []"
proof -
  have "onWheel tml e = []"
    using assms(2) by (simp add: onWheel_cases)
  moreover have "onKeydown (tml\<lparr>scrollWidth := w\<rparr>) key = onKeydown tml key"
    by (simp add: onKeydown_def)
  moreover have "\<exists>left. onKeydown tml key = [PreventDefault, ScrollBy left Smooth]"
    using assms(1) onKeydown_four_keys [of tml] by blast
  then have "PreventDefault \<in> set (onKeydown tml key)
       \<and> (\<exists>left. ScrollBy left Smooth \<in> set (onKeydown tml key))"
    by fastforce
  ultimately show ?thesis by simp
qed

theorem keyboard_ignores_overflow_witness:
  "scrollWidth \<lparr>scrollWidth = 500, clientWidth = 500\<rparr>
     \<le> clientWidth \<lparr>scrollWidth = 500, clientWidth = 500\<rparr> + 1
   \<and> PreventDefault \<in> set (onKeydown \<lparr>scrollWidth = 500, clientWidth = 500\<rparr> (lit ''PageDown''))
   \<and> ScrollBy (Finite 400) Smooth
       \<in> set (onKeydown \<lparr>scrollWidth = 500, clientWidth = 500\<rparr> (lit ''PageDown''))
   \<and> onWheel \<lparr>scrollWidth = 500, clientWidth = 500\<rparr>
              \<lparr>deltaX = 0, deltaY = 100, deltaMode = 0\<rparr> = []"
proof -
  have k: "lit ''PageDown''
             \<in> {lit ''ArrowRight'', lit ''ArrowLeft'', lit ''PageDown'', lit ''PageUp''}"
    by simp
  have o: "scrollWidth \<lparr>scrollWidth = 500, clientWidth = 500\<rparr>
             \<le> clientWidth \<lparr>scrollWidth = 500, clientWidth = 500\<rparr> + 1"
    by simp
  have v: "onKeydown \<lparr>scrollWidth = 500, clientWidth = 500\<rparr> (lit ''PageDown'')
             = [PreventDefault, ScrollBy (Finite 400) Smooth]"
    by (simp add: onKeydown_def lit_def binary64_eval)
  show ?thesis
    using keyboard_ignores_overflow [OF k o, of 0 "\<lparr>deltaX = 0, deltaY = 100, deltaMode = 0\<rparr>"] v
    by simp
qed


section \<open>Binary64 rounding does not change the verdict\<close>

lemma round_shift_lower: "(N div 2 ^ k) * 2 ^ k \<le> round_shift N k * 2 ^ k"
  by (simp add: round_shift_def Let_def)

lemma round_shift_upper: "2 * (round_shift N k * 2 ^ k) \<le> 2 * N + 2 ^ k"
proof -
  have N: "N = (N div 2 ^ k) * 2 ^ k + N mod 2 ^ k" by (rule div_mult_mod_eq [symmetric])
  define q r K where "q = N div 2 ^ k" and "r = N mod 2 ^ k" and "K = (2::nat) ^ k"
  have N': "N = q * K + r" using N by (simp add: q_def r_def K_def)
  have "round_shift N k \<le> (if 2 * r < K then q else q + 1)"
    by (simp add: round_shift_def Let_def q_def r_def K_def)
  then have "round_shift N k * K \<le> (if 2 * r < K then q else q + 1) * K"
    by (rule mult_le_mono1)
  also have "2 * \<dots> \<le> 2 * N + K"
    by (simp add: N' algebra_simps)
  finally show ?thesis by (simp add: K_def)
qed

lemma binary64_compare:
  assumes "n < 2 ^ 52" and "m \<le> n"
  shows "(of_nat m > binary64_times_tenth n) \<longleftrightarrow> 10 * m > n"
proof -
  define N where "N = n * binary64_tenth"
  define k where "k = bit_length N - 53"
  define R where "R = round_shift N k * 2 ^ k"
  have v: "binary64_times_tenth n = of_nat R / 2 ^ 56"
    by (simp add: binary64_times_tenth_def Let_def N_def k_def R_def)
  have cmp: "(of_nat m > binary64_times_tenth n) \<longleftrightarrow> m * 2 ^ 56 > R"
  proof -
    have "(of_nat m > binary64_times_tenth n) \<longleftrightarrow> (of_nat R :: rat) < of_nat m * 2 ^ 56"
      by (simp add: v divide_less_eq)
    also have "\<dots> \<longleftrightarrow> (of_nat R :: rat) < of_nat (m * 2 ^ 56)" by simp
    also have "\<dots> \<longleftrightarrow> R < m * 2 ^ 56" by (simp only: of_nat_less_iff)
    finally show ?thesis .
  qed
  have Nlt: "N < 2 ^ 109"
  proof -
    have "N < 2 ^ 52 * 2 ^ 53"
      unfolding N_def using assms(1) by (intro mult_strict_mono) (simp_all add: binary64_tenth_def)
    then show ?thesis by simp
  qed
  then have "bit_length N \<le> 109" by (rule bit_length_le)
  then have k56: "k \<le> 56" by (simp add: k_def)
  have up: "2 * R \<le> 2 * N + 2 ^ k"
    unfolding R_def by (rule round_shift_upper)
  have lo: "(N div 2 ^ k) * 2 ^ k \<le> R"
    unfolding R_def by (rule round_shift_lower)
  have K: "2 ^ k * 2 ^ 52 \<le> N \<or> R = N"
  proof (cases "k = 0")
    case True
    then have "R = N" by (simp add: R_def round_shift_def)
    then show ?thesis ..
  next
    case False
    then have b: "bit_length N > 53" by (simp add: k_def)
    then have "0 < N" by (subst (asm) bit_length.simps) (simp split: if_splits)
    then have "2 ^ (bit_length N - 1) \<le> N" by (rule bit_length_ge)
    moreover have "bit_length N - 1 = k + 52" using b by (simp add: k_def)
    ultimately show ?thesis by (simp add: power_add)
  qed
  show ?thesis
  proof (cases "10 * m > n")
    case True
    have "R < m * 2 ^ 56"
      using K up True assms unfolding N_def binary64_tenth_def
      by auto
    with True cmp show ?thesis by simp
  next
    case False
    then have "m * 2 ^ 56 \<le> N"
      unfolding N_def binary64_tenth_def by simp
    moreover obtain j where j: "m * 2 ^ 56 = j * 2 ^ k"
    proof
      show "m * 2 ^ 56 = (m * 2 ^ (56 - k)) * 2 ^ k"
        using k56 by (simp add: power_add [symmetric])
    qed
    ultimately have "j \<le> N div 2 ^ k"
      by (simp add: less_eq_div_iff_mult_less_eq)
    then have "j * 2 ^ k \<le> (N div 2 ^ k) * 2 ^ k"
      by (rule mult_le_mono1)
    then have "j * 2 ^ k \<le> R"
      using lo by (rule le_trans)
    then have "m * 2 ^ 56 \<le> R"
      by (simp only: j)
    with False cmp show ?thesis by simp
  qed
qed

text \<open>
  The rounded product of this section is the general product \<open>js_times\<close> with the
  literal \<^verbatim>\<open>0.1\<close>; the two computations are evaluated here at a few lengths
  (3 gives 0.30000000000000004, 10 gives 1).
\<close>

lemma tenth_bit_lengths:
  "bit_length 7205759403792794 = 53"
  "bit_length 21617278211378382 = 55"
  "bit_length 50440315826549558 = 56"
  "bit_length 72057594037927940 = 57"
  by (simp_all add: bit_length.simps)

lemma binary64_times_tenth_values:
  "binary64_times_tenth 1 = 7205759403792794 / 2 ^ 56"
  "binary64_times_tenth 3 = 5404319552844596 / 2 ^ 54"
  "binary64_times_tenth 7 = 6305039478318695 / 2 ^ 53"
  "binary64_times_tenth 10 = 1"
  by (simp_all add: binary64_times_tenth_def binary64_tenth_def round_shift_def
      tenth_bit_lengths)

lemma js_times_tenth_values:
  "js_times (Finite 1) (literal 0.1) = Finite (7205759403792794 / 2 ^ 56)"
  "js_times (Finite 3) (literal 0.1) = Finite (5404319552844596 / 2 ^ 54)"
  "js_times (Finite 7) (literal 0.1) = Finite (6305039478318695 / 2 ^ 53)"
  "js_times (Finite 10) (literal 0.1) = Finite 1"
  by (simp_all add: binary64_eval)

text \<open>
  For every text shorter than \<open>2^52\<close> code units (no engine holds a string that
  long) the comparison made with the rounded product gives the same answer as the
  comparison with exactly one tenth of the length.
\<close>

lemma hasRTLCharacters_binary64_agrees:
  assumes "length text < 2 ^ 52"
  shows "hasRTLCharacters_binary64 text \<longleftrightarrow> hasRTLCharacters text"
proof -
  have "rtl_count text \<le> length text"
    by (simp add: rtl_count_def)
  with assms have "(of_nat (rtl_count text) > binary64_times_tenth (length text))
                     \<longleftrightarrow> 10 * rtl_count text > length text"
    by (rule binary64_compare)
  then show ?thesis
    by (simp only: hasRTLCharacters_binary64_def Let_def matches_length hasRTLCharacters_iff)
qed


section \<open>Properties of the milestone cards\<close>



















lemma inert_ops:
  assumes "\<not> ontouchstart env" and "\<not> max_width_480 env"
  shows "handler_ops env ev cs = []"
  using assms
  by (cases ev) (simp_all add: handler_ops_def toggleCard_def cardKeydown_def documentClick_def
      isTouchOrSmall_def)




text \<open>
  Claim C9. In an environment that is neither touch-capable nor at most 480px wide,
  \<^verbatim>\<open>toggleCard\<close>, the card keydown listener (for every key) and the document click
  listener perform no class-list operation, so every such event, and every sequence of
  such events, leaves the open state of every card as it was.
\<close>

theorem inert_without_touch_or_narrow:
  assumes "\<not> ontouchstart env" and "\<not> max_width_480 env"
    and "\<forall>x \<in> set evs. \<not> ontouchstart (fst x) \<and> \<not> max_width_480 (fst x)"
  shows "toggleCard env cs i target = []
       \<and> cardKeydown env cs i key target = (False, [])
       \<and> documentClick env cs target = Inr []
       \<and> run [(env, ev)] cs = cs
       \<and> run evs cs = cs \<and> history evs cs = []"
proof -
  have "run evs cs = cs \<and> history evs cs = []"
    using assms(3)
  proof (induction evs)
    case Nil
    show ?case by simp
  next
    case (Cons x evs)
    obtain env' ev' where x: "x = (env', ev')" by (cases x)
    with Cons.prems have "handler_ops env' ev' cs = []"
      by (simp add: inert_ops)
    with Cons x show ?case
      by (simp add: exec_ops_def)
  qed
  moreover have "run [(env, ev)] cs = cs"
    using assms(1,2) by (simp add: inert_ops exec_ops_def)
  ultimately show ?thesis
    using assms(1,2)
    by (simp add: toggleCard_def cardKeydown_def documentClick_def isTouchOrSmall_def)
qed

theorem inert_without_touch_or_narrow_witness:
  "run [(\<lparr>ontouchstart = False, max_width_480 = False\<rparr>, Card_click 0 (Element False True)),
        (\<lparr>ontouchstart = False, max_width_480 = False\<rparr>,
         Card_keydown 1 (lit ''Enter'') (Element False True)),
        (\<lparr>ontouchstart = False, max_width_480 = False\<rparr>, Document_click (Element False False))]
       [False, True] = [False, True]
   \<and> toggleCard \<lparr>ontouchstart = False, max_width_480 = False\<rparr> [False, True] 0
       (Element False True) = []"
proof -
  have e: "\<not> ontouchstart \<lparr>ontouchstart = False, max_width_480 = False\<rparr>"
    and n: "\<not> max_width_480 \<lparr>ontouchstart = False, max_width_480 = False\<rparr>"
    by simp_all
  have s: "\<forall>x \<in> set [(\<lparr>ontouchstart = False, max_width_480 = False\<rparr>,
                          Card_click 0 (Element False True)),
                        (\<lparr>ontouchstart = False, max_width_480 = False\<rparr>,
                          Card_keydown 1 (lit ''Enter'') (Element False True)),
                        (\<lparr>ontouchstart = False, max_width_480 = False\<rparr>,
                          Document_click (Element False False))].
             \<not> ontouchstart (fst x) \<and> \<not> max_width_480 (fst x)"
    by simp
  show ?thesis
    using inert_without_touch_or_narrow [OF e n s, of "[False, True]" 0 "Element False True"]
    by simp
qed


section \<open>Absent elements\<close>

lemma setPageDirection_returns:
  "html_element doc = Some el \<Longrightarrow> \<exists>r. setPageDirection toLowerCase doc = Inr r"
  using setPageDirection_rtl_language [of doc el toLowerCase]
    setPageDirection_other_language [of doc el toLowerCase]
  by (cases "toLowerCase (primary_subtag (lang el)) \<in> set rtlLanguages") auto

text \<open>
  Claim C7. The claim is that a missing DOM element makes the behavior that needs it
  skip silently. The adapter does so: without a \<^verbatim>\<open>.timeline\<close> element its callback
  returns having registered no listener. The resolver does not: when no element has the
  id \<^verbatim>\<open>html-element\<close>, \<^verbatim>\<open>setPageDirection\<close> throws a TypeError on
  \<^verbatim>\<open>htmlElement.getAttribute\<close>, in the initial call and so before the observer is
  installed.
\<close>

theorem missing_root_element_throws:
  "resolver_onload toLowerCase \<lparr>html_element = None, innerText = text\<rparr> = Inl TypeError
   \<and> setPageDirection toLowerCase \<lparr>html_element = None, innerText = text\<rparr> = Inl TypeError
   \<and> adapter_onload None n = Inr []"
  by (simp add: resolver_onload_def setPageDirection_def adapter_onload_def)

end
